theory Spec2Isabelle
  imports Main
begin

section \<open>The namespace/level filter of the hello logger (src/index.ts)\<close>

text \<open>
  Conventions of the embedding.
  \<^item> A JavaScript string is a \<open>string\<close>, a list of code units below 256.
  \<^item> A \<open>Set<string>\<close> is the list of its elements in insertion order, without
    duplicates (what iterating the set yields); \<open>add\<close> appends an absent element.
  \<^item> The module is strict-mode code. The exceptions it can raise are \<open>TypeError\<close>s:
    calling a method that does not exist, reading through a getter that rejects its
    receiver, assigning to an inherited accessor that has no setter. They are the
    value \<open>TypeError\<close> of type \<open>error\<close>.
  \<^item> \<open>process.env.X\<close> is a \<open>string option\<close>, \<open>None\<close> when the variable is unset.
\<close>

datatype error = TypeError

type_synonym level_set = "string list"

subsection \<open>Plain objects used as dictionaries\<close>

text \<open>
  The code keeps its dictionaries in plain objects and reads and writes them with
  \<open>obj[key]\<close> and \<open>key in obj\<close>, which also see what the object inherits. The string
  keys of \<open>Object.prototype\<close>, all of them functions except the accessor \<open>__proto__\<close>:
\<close>

definition objectPrototypeKeys :: "string list" where
  "objectPrototypeKeys =
     [''constructor'', ''__defineGetter__'', ''__defineSetter__'', ''hasOwnProperty'',
      ''__lookupGetter__'', ''__lookupSetter__'', ''isPrototypeOf'', ''propertyIsEnumerable'',
      ''toString'', ''valueOf'', ''__proto__'', ''toLocaleString'']"

text \<open>
  The string keys of \<open>Set.prototype\<close>: functions, except the accessor \<open>size\<close>, which
  has a getter that accepts only a Set as receiver and no setter.
\<close>

definition setPrototypeKeys :: "string list" where
  "setPrototypeKeys =
     [''constructor'', ''has'', ''add'', ''delete'', ''clear'', ''entries'', ''forEach'',
      ''size'', ''values'', ''keys'', ''union'', ''intersection'', ''difference'',
      ''symmetricDifference'', ''isSubsetOf'', ''isSupersetOf'', ''isDisjointFrom'']"

text \<open>
  The table \<open>result\<close> of the builder. Its own entries are the keys other than
  \<open>__proto__\<close>; the entry under \<open>__proto__\<close> is the Set that an assignment
  \<open>result["__proto__"] = ...\<close> installed as the prototype of the object (that key is
  an accessor of \<open>Object.prototype\<close> whose setter replaces the prototype and whose
  getter returns it). Without such an entry the prototype is \<open>Object.prototype\<close>.
\<close>

type_synonym table = "string \<rightharpoonup> level_set"

definition inheritedByTable :: "table \<Rightarrow> string \<Rightarrow> bool" where
  "inheritedByTable t k =
     (k \<in> set objectPrototypeKeys \<or> (t ''__proto__'' \<noteq> None \<and> k \<in> set setPrototypeKeys))"

text \<open>
  What \<open>t[k]\<close> yields to code that goes on to use it as a Set: the Set; a value that
  is not a Set (an inherited function or object, or a getter that throws); or
  \<open>undefined\<close>.
\<close>

datatype lookup = IsSet level_set | NotASet | Undefined

definition tableGet :: "table \<Rightarrow> string \<Rightarrow> lookup" where
  "tableGet t k =
     (case t k of
        Some s \<Rightarrow> IsSet s
      | None \<Rightarrow> if inheritedByTable t k then NotASet else Undefined)"

text \<open>
  \<open>t[k] = v\<close>. The assignment creates or overwrites an own entry (or replaces the
  prototype, for \<open>__proto__\<close>), unless the key is not own and is inherited as an
  accessor without a setter, which is \<open>size\<close> when the prototype is a Set: then it
  raises.
\<close>

definition tableSet :: "table \<Rightarrow> string \<Rightarrow> level_set \<Rightarrow> error + table" where
  "tableSet t k v =
     (if k = ''size'' \<and> t ''size'' = None \<and> t ''__proto__'' \<noteq> None then Inl TypeError
      else Inr (t(k \<mapsto> v)))"

subsection \<open>String and array primitives\<close>

text \<open>\<open>s.split(c)\<close> for a one-character separator: always at least one segment.\<close>

fun split_on :: "char \<Rightarrow> string \<Rightarrow> string list" where
  "split_on c [] = [[]]"
| "split_on c (x # xs) =
     (if x = c then [] # split_on c xs
      else (case split_on c xs of
              [] \<Rightarrow> [[x]]
            | y # ys \<Rightarrow> (x # y) # ys))"

text \<open>White space and line terminators that \<open>trim\<close> removes, among code units below 256.\<close>

definition isWhiteSpace :: "char \<Rightarrow> bool" where
  "isWhiteSpace c = (of_char c \<in> {9, 10, 11, 12, 13, 32, 160 :: nat})"

definition trim :: "string \<Rightarrow> string" where
  "trim s = rev (dropWhile isWhiteSpace (rev (dropWhile isWhiteSpace s)))"

text \<open>\<open>p.startsWith("-")\<close>.\<close>

definition startsWithDash :: "string \<Rightarrow> bool" where
  "startsWithDash p = (case p of [] \<Rightarrow> False | c # _ \<Rightarrow> c = CHR ''-'')"

text \<open>\<open>forEach\<close> with a callback that may throw: the first exception ends the loop.\<close>

fun forEachE :: "('s \<Rightarrow> 'a \<Rightarrow> error + 's) \<Rightarrow> 'a list \<Rightarrow> 's \<Rightarrow> error + 's" where
  "forEachE f [] s = Inr s"
| "forEachE f (x # xs) s =
     (case f s x of Inl e \<Rightarrow> Inl e | Inr s' \<Rightarrow> forEachE f xs s')"

subsection \<open>parseDebugEnvVar\<close>

definition setAdd :: "string \<Rightarrow> level_set \<Rightarrow> level_set" where
  "setAdd x s = (if x \<in> set s then s else s @ [x])"

text \<open>\<open>result[ns].add(level)\<close>: a \<open>TypeError\<close> unless \<open>result[ns]\<close> is a Set.\<close>

definition addLevel :: "table \<Rightarrow> string \<Rightarrow> string \<Rightarrow> error + table" where
  "addLevel result ns level =
     (case tableGet result ns of
        IsSet s \<Rightarrow> Inr (result(ns \<mapsto> setAdd level s))
      | NotASet \<Rightarrow> Inl TypeError
      | Undefined \<Rightarrow> Inl TypeError)"

text \<open>
  The body both inclusion branches run for one namespace. The level token is \<open>None\<close>
  when the pattern has no second segment (\<open>undefined\<close>); \<open>undefined\<close> and the empty
  string are falsy.
\<close>

definition enable :: "string list \<Rightarrow> string option \<Rightarrow> table \<Rightarrow> string \<Rightarrow> error + table" where
  "enable levels level result namespace =
     (case level of
        None \<Rightarrow> tableSet result namespace [''*'']
      | Some l \<Rightarrow>
          if l \<noteq> [] then
            (if l = ''*'' \<or> l \<in> set levels then addLevel result namespace l
             else Inr result)
          else tableSet result namespace [''*''])"

text \<open>\<open>const [ns, level] = pattern.split(":")\<close>: the first two segments.\<close>

definition nsToken :: "string \<Rightarrow> string option" where
  "nsToken pattern = (case split_on CHR '':'' pattern of [] \<Rightarrow> None | n # _ \<Rightarrow> Some n)"

definition levelToken :: "string \<Rightarrow> string option" where
  "levelToken pattern =
     (case split_on CHR '':'' pattern of n # l # _ \<Rightarrow> Some l | _ \<Rightarrow> None)"

definition includePattern :: "string list \<Rightarrow> string list \<Rightarrow> table \<Rightarrow> string \<Rightarrow> error + table" where
  "includePattern namespaces levels result pattern =
     (case nsToken pattern of
        None \<Rightarrow> Inr result
      | Some ns \<Rightarrow>
          if ns = [] then Inr result
          else if ns = ''*'' then
            forEachE (enable levels (levelToken pattern)) namespaces result
          else if ns \<in> set namespaces then
            enable levels (levelToken pattern) result ns
          else Inr result)"

text \<open>\<open>pattern.substring(1).split(":")[0]\<close>.\<close>

definition exclusionNs :: "string \<Rightarrow> string" where
  "exclusionNs pattern = (case split_on CHR '':'' (drop 1 pattern) of [] \<Rightarrow> [] | n # _ \<Rightarrow> n)"

definition excludePattern :: "string list \<Rightarrow> table \<Rightarrow> string \<Rightarrow> error + table" where
  "excludePattern namespaces result pattern =
     (let ns = exclusionNs pattern in
      if ns = [] then Inr result
      else if ns \<in> set namespaces then tableSet result ns []
      else Inr result)"

text \<open>The first loop: \<open>result[ns] = new Set()\<close> for every declared namespace.\<close>

definition initTable :: "string list \<Rightarrow> error + table" where
  "initTable namespaces = forEachE (\<lambda>r ns. tableSet r ns []) namespaces Map.empty"

text \<open>The loop of the fast path: \<open>result[ns] = new Set(["*"])\<close>.\<close>

definition enableAll :: "string list \<Rightarrow> table \<Rightarrow> error + table" where
  "enableAll namespaces result = forEachE (\<lambda>r ns. tableSet r ns [''*'']) namespaces result"

definition patterns :: "string \<Rightarrow> string list" where
  "patterns debug = filter (\<lambda>p. p \<noteq> []) (map trim (split_on CHR '','' debug))"

definition parseDebugEnvVar :: "string list \<Rightarrow> string list \<Rightarrow> string option \<Rightarrow> error + table" where
  "parseDebugEnvVar namespaces levels env_DEBUG =
     (let debug = (case env_DEBUG of None \<Rightarrow> [] | Some d \<Rightarrow> d) in
      case initTable namespaces of
        Inl e \<Rightarrow> Inl e
      | Inr result \<Rightarrow>
          if debug = ''*'' then enableAll namespaces result
          else
            (let inclusions = filter (\<lambda>p. \<not> startsWithDash p) (patterns debug);
                 exclusions = filter startsWithDash (patterns debug)
             in case forEachE (includePattern namespaces levels) inclusions result of
                  Inl e \<Rightarrow> Inl e
                | Inr result' \<Rightarrow> forEachE (excludePattern namespaces) exclusions result'))"

subsection \<open>isEnabled\<close>

text \<open>
  \<open>if (!enabledLevels) return false\<close> catches \<open>undefined\<close> only; an inherited member
  passes it, and \<open>enabledLevels.has\<close> then raises.
\<close>

definition isEnabled :: "table \<Rightarrow> string \<Rightarrow> string \<Rightarrow> error + bool" where
  "isEnabled enabledMap namespace level =
     (case tableGet enabledMap namespace of
        Undefined \<Rightarrow> Inr False
      | NotASet \<Rightarrow> Inl TypeError
      | IsSet enabledLevels \<Rightarrow>
          Inr (if ''*'' \<in> set enabledLevels then True
               else if length enabledLevels = 0 then False
               else level \<in> set enabledLevels))"

subsection \<open>levelToPinoLevel and getMinLogLevel\<close>

text \<open>The own properties of the object literal \<open>levelToPinoLevel\<close>.\<close>

definition levelToPinoLevel :: "string \<rightharpoonup> string" where
  "levelToPinoLevel =
     map_of [(''fatal'', ''fatal''), (''error'', ''error''), (''warn'', ''warn''),
             (''info'', ''info''), (''debug'', ''debug''), (''trace'', ''trace'')]"

text \<open>
  A value read from that object: one of its strings, or a member inherited from
  \<open>Object.prototype\<close>, named by its key.
\<close>

datatype js_level = LevelName string | ProtoMember string

text \<open>\<open>levelToPinoLevel[key]\<close>, \<open>None\<close> for \<open>undefined\<close>; and \<open>key in levelToPinoLevel\<close>.\<close>

definition levelToPinoLevelGet :: "string \<Rightarrow> js_level option" where
  "levelToPinoLevelGet k =
     (case levelToPinoLevel k of
        Some p \<Rightarrow> Some (LevelName p)
      | None \<Rightarrow> if k \<in> set objectPrototypeKeys then Some (ProtoMember k) else None)"

definition inLevelToPinoLevel :: "string \<Rightarrow> bool" where
  "inLevelToPinoLevel k = (levelToPinoLevel k \<noteq> None \<or> k \<in> set objectPrototypeKeys)"

text \<open>
  \<open>levelToPinoLevel[level] || "info"\<close>: the six strings and the inherited members are
  all truthy.
\<close>

definition pinoLevelOf :: "string \<Rightarrow> js_level" where
  "pinoLevelOf level =
     (case levelToPinoLevelGet level of None \<Rightarrow> LevelName ''info'' | Some p \<Rightarrow> p)"

definition validLevels :: "string list" where
  "validLevels = [''fatal'', ''error'', ''warn'', ''info'', ''debug'', ''trace'']"

text \<open>\<open>Array.prototype.indexOf\<close>: the first position, or \<open>-1\<close>.\<close>

fun indexOf :: "'a list \<Rightarrow> 'a \<Rightarrow> int" where
  "indexOf [] v = -1"
| "indexOf (x # xs) v =
     (if x = v then 0 else (let i = indexOf xs v in if i < 0 then -1 else i + 1))"

text \<open>\<open>validLevels.indexOf(v)\<close> for a value read from \<open>levelToPinoLevel\<close>.\<close>

definition levelIndex :: "js_level \<Rightarrow> int" where
  "levelIndex v = (case v of LevelName p \<Rightarrow> indexOf validLevels p | ProtoMember k \<Rightarrow> -1)"

text \<open>
  \<open>LOG_LEVEL\<close> wins when \<open>configuredLevel && configuredLevel in levelToPinoLevel\<close>.
\<close>

definition severityOverride :: "string option \<Rightarrow> string option" where
  "severityOverride env_LOG_LEVEL =
     (case env_LOG_LEVEL of
        None \<Rightarrow> None
      | Some configuredLevel \<Rightarrow>
          if configuredLevel \<noteq> [] \<and> inLevelToPinoLevel configuredLevel
          then Some configuredLevel else None)"

text \<open>The body of the inner loop; the state is \<open>(minLevel, found)\<close>.\<close>

definition levelStep :: "string \<Rightarrow> js_level \<times> bool \<Rightarrow> js_level \<times> bool" where
  "levelStep level st =
     (case st of (minLevel, found) \<Rightarrow>
        if level \<noteq> ''*'' \<and> inLevelToPinoLevel level then
          (case levelToPinoLevelGet level of
             None \<Rightarrow> (minLevel, found)
           | Some p \<Rightarrow>
               if levelIndex p > levelIndex minLevel then (p, True)
               else (minLevel, found))
        else (minLevel, found))"

text \<open>
  The outer loop over the declared namespaces, with its early \<open>return "trace"\<close>;
  \<open>enabledLevels.has\<close> raises unless the entry is a Set.
\<close>

fun namespaceLoop :: "table \<Rightarrow> string list \<Rightarrow> js_level \<times> bool \<Rightarrow> error + js_level" where
  "namespaceLoop enabledNamespacesMap [] st =
     (case st of (minLevel, found) \<Rightarrow> Inr (if found then minLevel else LevelName ''info''))"
| "namespaceLoop enabledNamespacesMap (namespace # rest) st =
     (case tableGet enabledNamespacesMap namespace of
        IsSet enabledLevels \<Rightarrow>
          if ''*'' \<in> set enabledLevels then Inr (LevelName ''trace'')
          else namespaceLoop enabledNamespacesMap rest (fold levelStep enabledLevels st)
      | NotASet \<Rightarrow> Inl TypeError
      | Undefined \<Rightarrow> Inl TypeError)"

definition getMinLogLevel :: "string option \<Rightarrow> string list \<Rightarrow> table \<Rightarrow> error + js_level" where
  "getMinLogLevel env_LOG_LEVEL namespaces enabledNamespacesMap =
     (case severityOverride env_LOG_LEVEL of
        Some configuredLevel \<Rightarrow> Inr (LevelName configuredLevel)
      | None \<Rightarrow> namespaceLoop enabledNamespacesMap namespaces (LevelName ''info'', False))"

subsection \<open>formatMessage\<close>

text \<open>
  The JavaScript built-ins the formatter and the log function apply to an argument of
  type \<open>any\<close> are parameters: \<open>String(arg)\<close>, \<open>parseInt(arg, 10).toString()\<close>,
  \<open>parseFloat(arg).toString()\<close>, \<open>typeof arg === "object"\<close>, and the string an argument
  is when \<open>typeof arg === "string"\<close>.
\<close>

record 'a js_runtime =
  js_String :: "'a \<Rightarrow> string"
  js_parseInt :: "'a \<Rightarrow> string"
  js_parseFloat :: "'a \<Rightarrow> string"
  js_isObject :: "'a \<Rightarrow> bool"
  js_asString :: "'a \<Rightarrow> string option"

record 'a FormattedResult =
  message :: string
  unusedArgs :: "'a list"

text \<open>The second character of a match of \<open>/%[sdifjoO]/\<close>.\<close>

definition isPlaceholder :: "char \<Rightarrow> bool" where
  "isPlaceholder d = (d \<in> set ''sdifjoO'')"

text \<open>The \<open>switch\<close> of the replacement callback, on the character after \<open>%\<close>.\<close>

definition replacement :: "'a js_runtime \<Rightarrow> char \<Rightarrow> 'a \<Rightarrow> string" where
  "replacement rt d arg =
     (if d = CHR ''s'' then js_String rt arg
      else if d = CHR ''d'' \<or> d = CHR ''i'' then js_parseInt rt arg
      else if d = CHR ''f'' then js_parseFloat rt arg
      else if d = CHR ''j'' \<or> d = CHR ''o'' \<or> d = CHR ''O'' then
        (if js_isObject rt arg then ''[Object]'' else js_String rt arg)
      else [CHR ''%'', d])"

text \<open>
  \<open>String.prototype.replace\<close> with the global regular expression: the matches are
  found left to right and do not overlap, the replacement text is not scanned again.
  The function returns the new text and the final \<open>argIndex\<close>.
\<close>

fun replaceAll :: "'a js_runtime \<Rightarrow> 'a list \<Rightarrow> string \<Rightarrow> nat \<Rightarrow> string \<times> nat" where
  "replaceAll rt args [] argIndex = ([], argIndex)"
| "replaceAll rt args [c] argIndex = ([c], argIndex)"
| "replaceAll rt args (c # d # rest) argIndex =
     (if c = CHR ''%'' \<and> isPlaceholder d then
        (if argIndex \<ge> length args then
           (case replaceAll rt args rest argIndex of (m, i) \<Rightarrow> (c # d # m, i))
         else
           (case replaceAll rt args rest (Suc argIndex) of
              (m, i) \<Rightarrow> (replacement rt d (args ! argIndex) @ m, i)))
      else (case replaceAll rt args (d # rest) argIndex of (m, i) \<Rightarrow> (c # m, i)))"

definition formatMessage :: "'a js_runtime \<Rightarrow> string \<Rightarrow> 'a list \<Rightarrow> 'a FormattedResult" where
  "formatMessage rt msg args =
     (case replaceAll rt args msg 0 of
        (formattedMessage, argIndex) \<Rightarrow>
          \<lparr>message = formattedMessage, unusedArgs = drop argIndex args\<rparr>)"

subsection \<open>The log functions of the matrix\<close>

text \<open>
  What a log function hands to the engine's emit operation: a string, an object with a
  string, or an object alone. The object is \<open>{args: unusedArgs}\<close>,
  \<open>{...messageOrObj, args: unusedArgs}\<close> or \<open>messageOrObj\<close> itself.
\<close>

datatype ('o, 'a) merged = ArgsObj "'a list" | SpreadArgs 'o "'a list" | Plain 'o

datatype ('o, 'a) emit_args = Msg string | ObjMsg "('o, 'a) merged" string | ObjOnly 'o

text \<open>
  The state a constructed matrix closes over: the table, the engine's severity gate of
  the logger scoped to (namespace, level), and the calls of the engine's emit operations
  so far, each with its scope and severity name. The engine has one emit operation for
  each severity name and no property under the string form of an inherited member.
\<close>

record ('o, 'a) hello_state =
  enabledNamespacesMap :: table
  isLevelEnabled :: "string \<Rightarrow> string \<Rightarrow> js_level \<Rightarrow> bool"
  emitted :: "(string \<times> string \<times> string \<times> ('o, 'a) emit_args) list"

text \<open>\<open>envLogger[pinoLevel](...)\<close>.\<close>

definition emit ::
  "('o, 'a) hello_state \<Rightarrow> string \<Rightarrow> string \<Rightarrow> js_level \<Rightarrow> ('o, 'a) emit_args
     \<Rightarrow> error + ('o, 'a) hello_state" where
  "emit st namespace level pinoLevel call =
     (case pinoLevel of
        LevelName severity \<Rightarrow>
          Inr (st\<lparr>emitted := emitted st @ [(namespace, level, severity, call)]\<rparr>)
      | ProtoMember k \<Rightarrow> Inl TypeError)"

text \<open>The call a log function makes once the filter has let it through.\<close>

definition callOf :: "'a js_runtime \<Rightarrow> string + 'o \<Rightarrow> 'a list \<Rightarrow> ('o, 'a) emit_args" where
  "callOf rt messageOrObj args =
     (case messageOrObj of
        Inl str \<Rightarrow>
          (let result = formatMessage rt str args in
           if length (unusedArgs result) > 0 then
             ObjMsg (ArgsObj (unusedArgs result)) (message result)
           else Msg (message result))
      | Inr obj \<Rightarrow>
          (let msg = (if length args > 0 then js_asString rt (args ! 0) else None) in
           case msg of
             None \<Rightarrow> ObjOnly obj
           | Some m \<Rightarrow>
               if m \<noteq> [] then
                 (let restArgs = drop 1 args;
                      result = formatMessage rt m restArgs
                  in if length (unusedArgs result) > 0 then
                       ObjMsg (SpreadArgs obj (unusedArgs result)) (message result)
                     else ObjMsg (Plain obj) (message result))
               else ObjOnly obj))"

text \<open>
  \<open>!isEnabled(...) && !envLogger.isLevelEnabled(pinoLevel)\<close> asks the gate only when
  \<open>isEnabled\<close> is false.
\<close>

definition logFn ::
  "'a js_runtime \<Rightarrow> ('o, 'a) hello_state \<Rightarrow> string \<Rightarrow> string \<Rightarrow> string + 'o \<Rightarrow> 'a list
     \<Rightarrow> error + ('o, 'a) hello_state" where
  "logFn rt st namespace level messageOrObj args =
     (let pinoLevel = pinoLevelOf level in
      case isEnabled (enabledNamespacesMap st) namespace level of
        Inl e \<Rightarrow> Inl e
      | Inr enabled \<Rightarrow>
          if \<not> enabled \<and> \<not> isLevelEnabled st namespace level pinoLevel then Inr st
          else emit st namespace level pinoLevel (callOf rt messageOrObj args))"

text \<open>The \<open>enabled\<close> property of a log function: its getter and its setter.\<close>

definition enabled_get :: "('o, 'a) hello_state \<Rightarrow> string \<Rightarrow> string \<Rightarrow> error + bool" where
  "enabled_get st namespace level =
     (case isEnabled (enabledNamespacesMap st) namespace level of
        Inl e \<Rightarrow> Inl e
      | Inr enabled \<Rightarrow> Inr (enabled \<or> isLevelEnabled st namespace level (pinoLevelOf level)))"

definition enabled_set ::
  "('o, 'a) hello_state \<Rightarrow> string \<Rightarrow> string \<Rightarrow> 'v \<Rightarrow> ('o, 'a) hello_state" where
  "enabled_set st namespace level v = st"

section \<open>Specification-level views\<close>

subsection \<open>The table, one namespace at a time\<close>

text \<open>
  What the inclusion pass does to the enabled-set of one namespace \<open>k\<close>, and which
  namespaces the exclusion pass clears. \<open>entryOf\<close> is the entry of \<open>k\<close> in the built
  table in closed form; \<open>parseDebugEnvVar_entryOf\<close> below proves that the builder
  computes it whenever its first loop does not raise, and \<open>initTable_raises_iff\<close>
  says when that loop raises.
\<close>

definition enable1 :: "string list \<Rightarrow> string option \<Rightarrow> level_set \<Rightarrow> level_set" where
  "enable1 levels level s =
     (case level of
        None \<Rightarrow> [''*'']
      | Some l \<Rightarrow>
          if l \<noteq> [] then (if l = ''*'' \<or> l \<in> set levels then setAdd l s else s)
          else [''*''])"

definition include1 :: "string list \<Rightarrow> string \<Rightarrow> string \<Rightarrow> level_set \<Rightarrow> level_set" where
  "include1 levels k pattern s =
     (case nsToken pattern of
        None \<Rightarrow> s
      | Some ns \<Rightarrow>
          if ns \<noteq> [] \<and> (ns = ''*'' \<or> ns = k) then enable1 levels (levelToken pattern) s
          else s)"

definition excluded :: "string \<Rightarrow> string list \<Rightarrow> bool" where
  "excluded k exclusions = (k \<noteq> [] \<and> k \<in> exclusionNs ` set exclusions)"

definition entryOf :: "string list \<Rightarrow> string list \<Rightarrow> string \<Rightarrow> string \<Rightarrow> level_set option" where
  "entryOf namespaces levels debug k =
     (if k \<notin> set namespaces then None
      else if debug = ''*'' then Some [''*'']
      else if excluded k (filter startsWithDash (patterns debug)) then Some []
      else Some (fold (include1 levels k)
                   (filter (\<lambda>p. \<not> startsWithDash p) (patterns debug)) []))"

definition protoBeforeSize :: "string list \<Rightarrow> bool" where
  "protoBeforeSize namespaces =
     (''size'' \<in> set namespaces
      \<and> ''__proto__'' \<in> set (takeWhile (\<lambda>n. n \<noteq> ''size'') namespaces))"

text \<open>
  A spec string has an exclusion for namespace \<open>ns\<close> when one of its tokens starts with
  \<open>-\<close> and the text between that \<open>-\<close> and the first \<open>:\<close> is \<open>ns\<close>.
\<close>

definition hasExclusionFor :: "string \<Rightarrow> string \<Rightarrow> bool" where
  "hasExclusionFor debug ns =
     list_ex (\<lambda>p. startsWithDash p \<and> exclusionNs p = ns) (patterns debug)"

subsection \<open>The minimum severity as the specification words it\<close>

text \<open>All enabled tokens of the declared namespaces, in table order.\<close>

definition enabledLevelsOf :: "string list \<Rightarrow> table \<Rightarrow> string list" where
  "enabledLevelsOf namespaces t =
     concat (map (\<lambda>ns. case t ns of None \<Rightarrow> [] | Some s \<Rightarrow> s) namespaces)"

definition wildcardAnywhere :: "string list \<Rightarrow> table \<Rightarrow> bool" where
  "wildcardAnywhere namespaces t =
     list_ex (\<lambda>ns. case t ns of None \<Rightarrow> False | Some s \<Rightarrow> ''*'' \<in> set s) namespaces"

text \<open>
  The level-to-severity map of the specification: a level that is one of the engine's
  severity names maps to it, every other token to \<open>info\<close>.
\<close>

definition spec_severityOf :: "string \<Rightarrow> string" where
  "spec_severityOf level = (if level \<in> set validLevels then level else ''info'')"

text \<open>The more verbose of two severities: the one later in \<open>validLevels\<close>.\<close>

definition moreVerbose :: "string \<Rightarrow> string \<Rightarrow> string" where
  "moreVerbose p m = (if indexOf validLevels p > indexOf validLevels m then p else m)"

definition mostVerboseFrom :: "string \<Rightarrow> string list \<Rightarrow> string" where
  "mostVerboseFrom start sevs = fold moreVerbose sevs start"

text \<open>
  Contract B of the specification, in its words: the most verbose severity when a wildcard
  is present; otherwise the most verbose severity among the enabled levels, each mapped
  through the level-to-severity map with default \<open>info\<close>; \<open>info\<close> when nothing is
  enabled.
\<close>

definition spec_minimumSeverity :: "string list \<Rightarrow> table \<Rightarrow> string" where
  "spec_minimumSeverity namespaces t =
     (if wildcardAnywhere namespaces t then ''trace''
      else (case map spec_severityOf (enabledLevelsOf namespaces t) of
              [] \<Rightarrow> ''info''
            | s # sevs \<Rightarrow> mostVerboseFrom s sevs))"

subsection \<open>Placeholder substitution as a two-phase specification\<close>

text \<open>
  The message cut into literal characters and placeholder occurrences (the matches of
  \<open>/%[sdifjoO]/g\<close>, left to right), and the substitution that consumes one argument per
  placeholder and leaves a placeholder verbatim once the arguments are used up.
\<close>

datatype token = Lit char | Placeholder char

fun tokens :: "string \<Rightarrow> token list" where
  "tokens [] = []"
| "tokens [c] = [Lit c]"
| "tokens (c # d # rest) =
     (if c = CHR ''%'' \<and> isPlaceholder d then Placeholder d # tokens rest
      else Lit c # tokens (d # rest))"

fun substitute :: "'a js_runtime \<Rightarrow> token list \<Rightarrow> 'a list \<Rightarrow> string" where
  "substitute rt [] args = []"
| "substitute rt (Lit c # ts) args = c # substitute rt ts args"
| "substitute rt (Placeholder d # ts) [] = CHR ''%'' # d # substitute rt ts []"
| "substitute rt (Placeholder d # ts) (a # as) = replacement rt d a @ substitute rt ts as"

definition placeholderCount :: "string \<Rightarrow> nat" where
  "placeholderCount msg = length (filter (\<lambda>t. case t of Placeholder _ \<Rightarrow> True | Lit _ \<Rightarrow> False) (tokens msg))"

subsection \<open>Observing the result of the builder\<close>

text \<open>
  The entry of a namespace in what the builder returned, the answer of \<open>isEnabled\<close>
  on it (\<open>queryIn\<close>), and whether that answer is \<open>true\<close> (\<open>enabledIn\<close>).
\<close>

definition entryIn :: "error + table \<Rightarrow> string \<Rightarrow> level_set option" where
  "entryIn r ns = (case r of Inl e \<Rightarrow> None | Inr t \<Rightarrow> t ns)"

definition queryIn :: "error + table \<Rightarrow> string \<Rightarrow> string \<Rightarrow> error + bool" where
  "queryIn r ns lvl = (case r of Inl e \<Rightarrow> Inl e | Inr t \<Rightarrow> isEnabled t ns lvl)"

definition enabledIn :: "error + table \<Rightarrow> string \<Rightarrow> string \<Rightarrow> bool" where
  "enabledIn r ns lvl = (queryIn r ns lvl = Inr True)"

definition raised :: "error + 'a \<Rightarrow> bool" where
  "raised r = (case r of Inl e \<Rightarrow> True | Inr v \<Rightarrow> False)"

subsection \<open>Severities at or below the default\<close>

definition atLeastInfo :: "string \<Rightarrow> bool" where
  "atLeastInfo m = (m = ''info'' \<or> m = ''debug'' \<or> m = ''trace'')"

subsection \<open>Concrete inputs for the examples\<close>

text \<open>
  A runtime whose arguments are strings, and a matrix state whose table is what
  \<open>"app:info,-api"\<close> builds for the namespaces \<open>app\<close> and \<open>api\<close>, with an engine
  gate that lets \<open>error\<close> and \<open>fatal\<close> through.
\<close>

definition stringRuntime :: "string js_runtime" where
  "stringRuntime =
     \<lparr>js_String = (\<lambda>a. a), js_parseInt = (\<lambda>a. a), js_parseFloat = (\<lambda>a. a),
      js_isObject = (\<lambda>a. False), js_asString = (\<lambda>a. Some a)\<rparr>"

definition exampleState :: "(string, string) hello_state" where
  "exampleState =
     \<lparr>enabledNamespacesMap = [''app'' \<mapsto> [''info''], ''api'' \<mapsto> []],
      isLevelEnabled = (\<lambda>namespace level severity.
         severity = LevelName ''error'' \<or> severity = LevelName ''fatal''),
      emitted = []\<rparr>"

text \<open>
  The state of a matrix declared with the single namespace \<open>app\<close> and the single level
  \<open>constructor\<close>, built with the spec \<open>*\<close>, over an engine that lets nothing through.
\<close>

definition constructorLevelState :: "(string, string) hello_state" where
  "constructorLevelState =
     \<lparr>enabledNamespacesMap = [''app'' \<mapsto> [''*'']],
      isLevelEnabled = (\<lambda>namespace level severity. False),
      emitted = []\<rparr>"

section \<open>Lemmas\<close>

subsection \<open>The builder computes \<open>entryOf\<close>\<close>

lemma tableSet_own: "t k \<noteq> None \<Longrightarrow> tableSet t k v = Inr (t(k \<mapsto> v))"
  by (auto simp: tableSet_def)

lemma tableGet_Some: "t k = Some s \<Longrightarrow> tableGet t k = IsSet s"
  by (simp add: tableGet_def)

lemma tableGet_IsSet_iff: "(tableGet t k = IsSet s) = (t k = Some s)"
  by (simp add: tableGet_def split: option.splits)

lemma forEachE_tableSet:
  "forEachE (\<lambda>r ns. tableSet r ns v) xs r =
     (if r ''size'' = None \<and> ''size'' \<in> set xs
         \<and> (r ''__proto__'' \<noteq> None \<or> ''__proto__'' \<in> set (takeWhile (\<lambda>n. n \<noteq> ''size'') xs))
      then Inl TypeError
      else Inr (\<lambda>k. if k \<in> set xs then Some v else r k))"
proof (induction xs arbitrary: r)
  case Nil
  then show ?case by simp
next
  case (Cons x xs)
  show ?case
  proof (cases "x = ''size''")
    case size: True
    show ?thesis
    proof (cases "r ''size'' = None \<and> r ''__proto__'' \<noteq> None")
      case True
      then have "tableSet r x v = Inl TypeError" by (simp add: tableSet_def size)
      then show ?thesis using True size by simp
    next
      case False
      then have ts: "tableSet r x v = Inr (r(x \<mapsto> v))" by (auto simp: tableSet_def size)
      have own: "(r(x \<mapsto> v)) ''size'' \<noteq> None" by (simp add: size)
      have ih: "forEachE (\<lambda>r ns. tableSet r ns v) xs (r(x \<mapsto> v))
          = Inr (\<lambda>k. if k \<in> set xs then Some v else (r(x \<mapsto> v)) k)"
        unfolding Cons.IH using own by (simp only: simp_thms if_False)
      have eq: "(\<lambda>k. if k \<in> set xs then Some v else (r(x \<mapsto> v)) k)
          = (\<lambda>k. if k \<in> set (x # xs) then Some v else r k)"
        by (rule ext) simp
      have step: "forEachE (\<lambda>r ns. tableSet r ns v) (x # xs) r
          = Inr (\<lambda>k. if k \<in> set (x # xs) then Some v else r k)"
        by (simp only: forEachE.simps ts sum.case ih eq)
      have cond: "\<not> (r ''size'' = None \<and> ''size'' \<in> set (x # xs)
         \<and> (r ''__proto__'' \<noteq> None
            \<or> ''__proto__'' \<in> set (takeWhile (\<lambda>n. n \<noteq> ''size'') (x # xs))))"
        using False by (auto simp: size)
      show ?thesis unfolding step using cond by (simp only: if_False)
    qed
  next
    case other: False
    have ts: "tableSet r x v = Inr (r(x \<mapsto> v))" using other by (simp add: tableSet_def)
    have eq: "(\<lambda>k. if k \<in> set xs then Some v else (r(x \<mapsto> v)) k)
          = (\<lambda>k. if k \<in> set (x # xs) then Some v else r k)"
      by (rule ext) simp
    have "forEachE (\<lambda>r ns. tableSet r ns v) (x # xs) r
        = forEachE (\<lambda>r ns. tableSet r ns v) xs (r(x \<mapsto> v))"
      by (simp add: ts)
    then show ?thesis
      unfolding Cons.IH eq [symmetric] using other by auto
  qed
qed

lemma initTable_result:
  "initTable N =
     (if protoBeforeSize N then Inl TypeError
      else Inr (\<lambda>k. if k \<in> set N then Some [] else None))"
  by (simp add: initTable_def forEachE_tableSet protoBeforeSize_def)

lemma initTable_raises_iff: "raised (initTable N) = protoBeforeSize N"
  by (simp add: initTable_result raised_def)

lemma enableAll_apply:
  "set N \<subseteq> dom r \<Longrightarrow>
   enableAll N r = Inr (\<lambda>k. if k \<in> set N then Some [''*''] else r k)"
  by (auto simp: enableAll_def forEachE_tableSet)

lemma setAdd_idem: "setAdd x (setAdd x s) = setAdd x s"
  by (simp add: setAdd_def)

lemma enable1_idem: "enable1 L lv (enable1 L lv s) = enable1 L lv s"
  by (auto simp: enable1_def setAdd_idem split: option.splits)

lemma enable_Some:
  "r k = Some s \<Longrightarrow> enable L lv r k = Inr (r(k \<mapsto> enable1 L lv s))"
  by (auto simp: enable_def enable1_def addLevel_def tableGet_Some tableSet_own split: option.splits)

lemma forEachE_enable:
  "set xs \<subseteq> dom r \<Longrightarrow>
   forEachE (enable L lv) xs r =
     Inr (\<lambda>k. if k \<in> set xs then map_option (enable1 L lv) (r k) else r k)"
proof (induction xs arbitrary: r)
  case Nil
  then show ?case by simp
next
  case (Cons x xs)
  from Cons.prems obtain s where s: "r x = Some s" by auto
  let ?r = "r(x \<mapsto> enable1 L lv s)"
  have sub: "set xs \<subseteq> dom ?r" using Cons.prems by auto
  have "forEachE (enable L lv) (x # xs) r = forEachE (enable L lv) xs ?r"
    using s by (simp add: enable_Some)
  also have "\<dots> = Inr (\<lambda>k. if k \<in> set xs then map_option (enable1 L lv) (?r k) else ?r k)"
    by (rule Cons.IH [OF sub])
  also have "(\<lambda>k. if k \<in> set xs then map_option (enable1 L lv) (?r k) else ?r k)
           = (\<lambda>k. if k \<in> set (x # xs) then map_option (enable1 L lv) (r k) else r k)"
    by (rule ext) (simp add: s enable1_idem)
  finally show ?case .
qed

lemma map_option_idI: "(\<And>s. x = Some s \<Longrightarrow> f s = s) \<Longrightarrow> map_option f x = x"
  by (cases x) auto

lemma include1_skip:
  "nsToken p = None \<or> nsToken p = Some [] \<or> (nsToken p = Some ns \<and> ns \<noteq> ''*'' \<and> ns \<noteq> k)
   \<Longrightarrow> include1 L k p s = s"
  by (auto simp: include1_def)

lemma include1_hit:
  "nsToken p = Some ns \<Longrightarrow> ns \<noteq> [] \<Longrightarrow> ns = ''*'' \<or> ns = k
   \<Longrightarrow> include1 L k p s = enable1 L (levelToken p) s"
  by (auto simp: include1_def)

lemma includePattern_apply:
  assumes "set N \<subseteq> dom r"
  shows "includePattern N L r p =
     Inr (\<lambda>k. if k \<in> set N then map_option (include1 L k p) (r k) else r k)"
proof (cases "nsToken p")
  case None
  have "(\<lambda>k. if k \<in> set N then map_option (include1 L k p) (r k) else r k) = r"
    by (rule ext) (simp add: None include1_skip map_option_idI)
  then show ?thesis using None
    by (simp add: includePattern_def)
next
  case (Some ns)
  consider (empty) "ns = []" | (star) "ns = ''*''" | (decl) "ns \<noteq> []" "ns \<noteq> ''*''" "ns \<in> set N"
    | (other) "ns \<noteq> []" "ns \<noteq> ''*''" "ns \<notin> set N" by blast
  then show ?thesis
  proof cases
    case empty
    have "(\<lambda>k. if k \<in> set N then map_option (include1 L k p) (r k) else r k) = r"
      using Some empty by (intro ext) (simp add: include1_skip map_option_idI)
    then show ?thesis using Some empty
      by (simp add: includePattern_def)
  next
    case star
    have inc: "include1 L k p = enable1 L (levelToken p)" for k
      using Some star by (intro ext) (simp add: include1_hit)
    have "includePattern N L r p = forEachE (enable L (levelToken p)) N r"
      using Some star by (simp add: includePattern_def)
    also have "\<dots> = Inr (\<lambda>k. if k \<in> set N then map_option (enable1 L (levelToken p)) (r k) else r k)"
      by (rule forEachE_enable [OF assms])
    finally show ?thesis by (simp only: inc)
  next
    case decl
    with assms obtain s where s: "r ns = Some s" by auto
    have "includePattern N L r p = Inr (r(ns \<mapsto> enable1 L (levelToken p) s))"
      using Some decl s by (simp add: includePattern_def enable_Some)
    also have "r(ns \<mapsto> enable1 L (levelToken p) s)
       = (\<lambda>k. if k \<in> set N then map_option (include1 L k p) (r k) else r k)"
    proof (rule ext)
      fix k
      show "(r(ns \<mapsto> enable1 L (levelToken p) s)) k
          = (if k \<in> set N then map_option (include1 L k p) (r k) else r k)"
      proof (cases "k = ns")
        case True
        then show ?thesis using Some decl s by (simp add: include1_hit)
      next
        case False
        then have "\<And>t. include1 L k p t = t"
          using Some decl by (auto simp: include1_def)
        then show ?thesis using False by (simp add: map_option_idI)
      qed
    qed
    finally show ?thesis .
  next
    case other
    have "(\<lambda>k. if k \<in> set N then map_option (include1 L k p) (r k) else r k) = r"
    proof (rule ext)
      fix k
      show "(if k \<in> set N then map_option (include1 L k p) (r k) else r k) = r k"
      proof (cases "k \<in> set N")
        case True
        then have "ns \<noteq> k" using other by auto
        then have "\<And>t. include1 L k p t = t"
          using Some other by (auto simp: include1_def)
        then show ?thesis by (simp add: map_option_idI)
      next
        case False
        then show ?thesis by simp
      qed
    qed
    then show ?thesis using Some other
      by (simp add: includePattern_def)
  qed
qed

lemma forEachE_includePattern:
  "set N \<subseteq> dom r \<Longrightarrow>
   forEachE (includePattern N L) ps r =
     Inr (\<lambda>k. if k \<in> set N then map_option (fold (include1 L k) ps) (r k) else r k)"
proof (induction ps arbitrary: r)
  case Nil
  have "(\<lambda>k. if k \<in> set N then map_option (fold (include1 L k) []) (r k) else r k) = r"
    by (rule ext) (simp add: map_option_idI)
  then show ?case by simp
next
  case (Cons p ps)
  let ?r = "\<lambda>k. if k \<in> set N then map_option (include1 L k p) (r k) else r k"
  have sub: "set N \<subseteq> dom ?r" using Cons.prems by (auto simp: dom_def)
  have "forEachE (includePattern N L) (p # ps) r = forEachE (includePattern N L) ps ?r"
    by (simp add: includePattern_apply [OF Cons.prems])
  also have "\<dots> = Inr (\<lambda>k. if k \<in> set N then map_option (fold (include1 L k) ps) (?r k) else ?r k)"
    by (rule Cons.IH [OF sub])
  also have "(\<lambda>k. if k \<in> set N then map_option (fold (include1 L k) ps) (?r k) else ?r k)
     = (\<lambda>k. if k \<in> set N then map_option (fold (include1 L k) (p # ps)) (r k) else r k)"
    by (rule ext) (simp add: option.map_comp comp_def)
  finally show ?case .
qed

lemma excludePattern_apply:
  "set N \<subseteq> dom r \<Longrightarrow>
   excludePattern N r p =
     Inr (\<lambda>k. if k \<in> set N \<and> k \<noteq> [] \<and> exclusionNs p = k then Some [] else r k)"
proof -
  assume sub: "set N \<subseteq> dom r"
  show ?thesis
  proof (cases "exclusionNs p \<noteq> [] \<and> exclusionNs p \<in> set N")
    case True
    then have "r (exclusionNs p) \<noteq> None" using sub by auto
    then have "tableSet r (exclusionNs p) [] = Inr (r(exclusionNs p \<mapsto> []))"
      by (rule tableSet_own)
    moreover have "r(exclusionNs p \<mapsto> [])
        = (\<lambda>k. if k \<in> set N \<and> k \<noteq> [] \<and> exclusionNs p = k then Some [] else r k)"
      using True by (intro ext) auto
    ultimately show ?thesis using True by (simp add: excludePattern_def Let_def)
  next
    case False
    then have "(\<lambda>k. if k \<in> set N \<and> k \<noteq> [] \<and> exclusionNs p = k then Some [] else r k) = r"
      by (intro ext) auto
    then show ?thesis using False by (auto simp: excludePattern_def Let_def)
  qed
qed

lemma forEachE_excludePattern:
  "set N \<subseteq> dom r \<Longrightarrow>
   forEachE (excludePattern N) ps r =
     Inr (\<lambda>k. if k \<in> set N \<and> excluded k ps then Some [] else r k)"
proof (induction ps arbitrary: r)
  case Nil
  then show ?case by (simp add: excluded_def)
next
  case (Cons p ps)
  let ?r = "\<lambda>k. if k \<in> set N \<and> k \<noteq> [] \<and> exclusionNs p = k then Some [] else r k"
  have sub: "set N \<subseteq> dom ?r" using Cons.prems by (auto simp: dom_def)
  have "forEachE (excludePattern N) (p # ps) r = forEachE (excludePattern N) ps ?r"
    by (simp add: excludePattern_apply [OF Cons.prems])
  also have "\<dots> = Inr (\<lambda>k. if k \<in> set N \<and> excluded k ps then Some [] else ?r k)"
    by (rule Cons.IH [OF sub])
  also have "(\<lambda>k. if k \<in> set N \<and> excluded k ps then Some [] else ?r k)
      = (\<lambda>k. if k \<in> set N \<and> excluded k (p # ps) then Some [] else r k)"
    by (rule ext) (auto simp: excluded_def)
  finally show ?case .
qed

lemma parseDebugEnvVar_entryOf:
  "parseDebugEnvVar N L env =
     (if protoBeforeSize N then Inl TypeError
      else Inr (entryOf N L (case env of None \<Rightarrow> [] | Some d \<Rightarrow> d)))"
proof (cases "protoBeforeSize N")
  case True
  then show ?thesis by (simp add: parseDebugEnvVar_def initTable_result)
next
  case False
  let ?r = "\<lambda>k. if k \<in> set N then Some ([] :: level_set) else None"
  have init: "initTable N = Inr ?r" using False by (simp add: initTable_result)
  have sub: "set N \<subseteq> dom ?r" by (auto simp: dom_def)
  let ?d = "case env of None \<Rightarrow> [] | Some d \<Rightarrow> d"
  let ?inc = "filter (\<lambda>p. \<not> startsWithDash p) (patterns ?d)"
  let ?r' = "\<lambda>k. if k \<in> set N then map_option (fold (include1 L k) ?inc) (?r k) else ?r k"
  have inc: "forEachE (includePattern N L) ?inc ?r = Inr ?r'"
    by (rule forEachE_includePattern [OF sub])
  have sub': "set N \<subseteq> dom ?r'" by (auto simp: dom_def)
  have exc: "forEachE (excludePattern N) (filter startsWithDash (patterns ?d)) ?r'
      = Inr (\<lambda>k. if k \<in> set N \<and> excluded k (filter startsWithDash (patterns ?d)) then Some []
                 else ?r' k)"
    by (rule forEachE_excludePattern [OF sub'])
  show ?thesis
  proof (cases "?d = ''*''")
    case True
    have "entryOf N L ?d = (\<lambda>k. if k \<in> set N then Some [''*''] else ?r k)"
      using True by (intro ext) (simp add: entryOf_def)
    then show ?thesis
      using False True by (simp add: parseDebugEnvVar_def init enableAll_apply [OF sub])
  next
    case notstar: False
    have "entryOf N L ?d =
       (\<lambda>k. if k \<in> set N \<and> excluded k (filter startsWithDash (patterns ?d)) then Some []
             else ?r' k)"
      using notstar by (intro ext) (simp add: entryOf_def)
    then show ?thesis
      using False notstar by (simp add: parseDebugEnvVar_def init inc exc Let_def)
  qed
qed

lemma raised_parse: "raised (parseDebugEnvVar N L env) = raised (initTable N)"
  by (simp add: parseDebugEnvVar_entryOf initTable_result raised_def)

lemma entryIn_parse:
  "\<not> protoBeforeSize N \<Longrightarrow>
   entryIn (parseDebugEnvVar N L env) k = entryOf N L (case env of None \<Rightarrow> [] | Some d \<Rightarrow> d) k"
  by (simp add: parseDebugEnvVar_entryOf entryIn_def)

lemma queryIn_entryIn:
  "entryIn r ns = Some s \<Longrightarrow>
   queryIn r ns lvl = Inr (''*'' \<in> set s \<or> lvl \<in> set s)"
  by (auto simp: queryIn_def entryIn_def isEnabled_def tableGet_Some split: sum.splits)

lemma isEnabled_own:
  "t ns = Some s \<Longrightarrow> isEnabled t ns lvl = Inr (''*'' \<in> set s \<or> lvl \<in> set s)"
  by (auto simp: isEnabled_def tableGet_Some)

subsection \<open>The loops of getMinLogLevel\<close>

lemma indexOf_validLevels:
  "indexOf validLevels ''fatal'' = 0" "indexOf validLevels ''error'' = 1"
  "indexOf validLevels ''warn'' = 2" "indexOf validLevels ''info'' = 3"
  "indexOf validLevels ''debug'' = 4" "indexOf validLevels ''trace'' = 5"
  by (simp_all add: validLevels_def Let_def)

lemma levelToPinoLevel_Some:
  "levelToPinoLevel l = Some p \<Longrightarrow> p = l \<and> l \<in> set validLevels"
  by (auto simp: levelToPinoLevel_def validLevels_def split: if_splits)

lemma validLevels_cases:
  "l \<in> set validLevels \<Longrightarrow>
   l = ''fatal'' \<or> l = ''error'' \<or> l = ''warn'' \<or> l = ''info'' \<or> l = ''debug'' \<or> l = ''trace''"
  unfolding validLevels_def by simp

lemma verbose_atLeastInfo:
  assumes "l \<in> set validLevels" and "3 < indexOf validLevels l"
  shows "atLeastInfo l"
proof -
  have "l = ''fatal'' \<Longrightarrow> False" using assms(2) by (simp add: indexOf_validLevels)
  moreover have "l = ''error'' \<Longrightarrow> False" using assms(2) by (simp add: indexOf_validLevels)
  moreover have "l = ''warn'' \<Longrightarrow> False" using assms(2) by (simp add: indexOf_validLevels)
  ultimately show ?thesis
    using validLevels_cases [OF assms(1)] unfolding atLeastInfo_def by fast
qed

lemma atLeastInfo_index: "atLeastInfo m \<Longrightarrow> 3 \<le> indexOf validLevels m"
  unfolding atLeastInfo_def by (elim disjE) (simp_all add: indexOf_validLevels)

lemma levelToPinoLevel_valid: "l \<in> set validLevels \<Longrightarrow> levelToPinoLevel l = Some l"
  unfolding validLevels_def levelToPinoLevel_def by (elim disjE | simp)+

lemma levelToPinoLevel_invalid: "l \<notin> set validLevels \<Longrightarrow> levelToPinoLevel l = None"
  using levelToPinoLevel_Some [of l] by (cases "levelToPinoLevel l") simp_all

lemma levelStep_moreVerbose:
  assumes "level \<noteq> ''*''" "atLeastInfo m" "\<not> f \<longrightarrow> m = ''info''"
  shows "\<exists>f'. levelStep level (LevelName m, f)
                 = (LevelName (moreVerbose (spec_severityOf level) m), f')
            \<and> atLeastInfo (moreVerbose (spec_severityOf level) m)
            \<and> (\<not> f' \<longrightarrow> moreVerbose (spec_severityOf level) m = ''info'')"
proof -
  have idx: "3 \<le> indexOf validLevels m" by (rule atLeastInfo_index [OF assms(2)])
  show ?thesis
  proof (cases "level \<in> set validLevels")
    case lv: True
    have pl: "spec_severityOf level = level" using lv by (simp add: spec_severityOf_def)
    have get: "levelToPinoLevelGet level = Some (LevelName level)"
      by (simp add: levelToPinoLevelGet_def levelToPinoLevel_valid [OF lv])
    have inl: "inLevelToPinoLevel level"
      by (simp add: inLevelToPinoLevel_def levelToPinoLevel_valid [OF lv])
    show ?thesis
    proof (cases "indexOf validLevels level > indexOf validLevels m")
      case True
      then have "3 < indexOf validLevels level" using idx by simp
      then have al: "atLeastInfo level" by (rule verbose_atLeastInfo [OF lv])
      have st: "levelStep level (LevelName m, f) = (LevelName level, True)"
        using True assms(1) by (simp add: levelStep_def get inl levelIndex_def)
      have mv: "moreVerbose level m = level" using True by (simp add: moreVerbose_def)
      show ?thesis unfolding st pl mv using al by (intro exI [of _ True]) simp
    next
      case False
      have st: "levelStep level (LevelName m, f) = (LevelName m, f)"
        using False assms(1) by (simp add: levelStep_def get inl levelIndex_def)
      have mv: "moreVerbose level m = m" using False by (simp add: moreVerbose_def)
      show ?thesis unfolding st pl mv using assms(2,3) by (intro exI [of _ f]) simp
    qed
  next
    case nlv: False
    have pl: "spec_severityOf level = ''info''" using nlv by (simp add: spec_severityOf_def)
    have mv: "moreVerbose ''info'' m = m"
      using idx by (simp add: moreVerbose_def indexOf_validLevels)
    have none: "levelToPinoLevel level = None" by (rule levelToPinoLevel_invalid [OF nlv])
    have st: "levelStep level (LevelName m, f) = (LevelName m, f)"
    proof (cases "level \<in> set objectPrototypeKeys")
      case True
      then have get: "levelToPinoLevelGet level = Some (ProtoMember level)"
        by (simp add: levelToPinoLevelGet_def none)
      have "\<not> (- 1 > indexOf validLevels m)" using idx by simp
      then show ?thesis
        by (simp add: levelStep_def get levelIndex_def)
    next
      case False
      then have "\<not> inLevelToPinoLevel level" by (simp add: inLevelToPinoLevel_def none)
      then show ?thesis by (simp add: levelStep_def)
    qed
    show ?thesis unfolding st pl mv using assms(2,3) by (intro exI [of _ f]) simp
  qed
qed

lemma fold_levelStep:
  "''*'' \<notin> set ls \<Longrightarrow> atLeastInfo m \<Longrightarrow> (\<not> f \<longrightarrow> m = ''info'') \<Longrightarrow>
   \<exists>f'. fold levelStep ls (LevelName m, f)
           = (LevelName (mostVerboseFrom m (map spec_severityOf ls)), f')
      \<and> atLeastInfo (mostVerboseFrom m (map spec_severityOf ls))
      \<and> (\<not> f' \<longrightarrow> mostVerboseFrom m (map spec_severityOf ls) = ''info'')"
proof (induction ls arbitrary: m f)
  case Nil
  then show ?case by (intro exI [of _ f]) (simp add: mostVerboseFrom_def)
next
  case (Cons l ls)
  have l: "l \<noteq> ''*''" and ls: "''*'' \<notin> set ls" using Cons.prems(1) by auto
  from levelStep_moreVerbose [OF l Cons.prems(2) Cons.prems(3)]
  obtain f1 where st: "levelStep l (LevelName m, f) = (LevelName (moreVerbose (spec_severityOf l) m), f1)"
    and m2: "atLeastInfo (moreVerbose (spec_severityOf l) m)"
    and m3: "\<not> f1 \<longrightarrow> moreVerbose (spec_severityOf l) m = ''info''"
    by fast
  have e1: "fold levelStep (l # ls) (LevelName m, f)
      = fold levelStep ls (LevelName (moreVerbose (spec_severityOf l) m), f1)"
    by (simp add: st)
  have e2: "mostVerboseFrom m (map spec_severityOf (l # ls))
      = mostVerboseFrom (moreVerbose (spec_severityOf l) m) (map spec_severityOf ls)"
    by (simp add: mostVerboseFrom_def)
  show ?case unfolding e1 e2 by (rule Cons.IH [OF ls m2 m3])
qed

lemma namespaceLoop_result:
  "set N \<subseteq> dom t \<Longrightarrow> atLeastInfo m \<Longrightarrow> (\<not> f \<longrightarrow> m = ''info'') \<Longrightarrow>
   namespaceLoop t N (LevelName m, f) =
     Inr (LevelName (if wildcardAnywhere N t then ''trace''
                     else mostVerboseFrom m (map spec_severityOf (enabledLevelsOf N t))))"
proof (induction N arbitrary: m f)
  case Nil
  have "namespaceLoop t [] (LevelName m, f) = Inr (if f then LevelName m else LevelName ''info'')"
    by simp
  also have "(if f then LevelName m else LevelName ''info'') = LevelName m"
    using Nil.prems(3) by auto
  finally show ?case
    by (simp add: wildcardAnywhere_def enabledLevelsOf_def mostVerboseFrom_def)
next
  case (Cons n N)
  from Cons.prems(1) obtain s where s: "t n = Some s" by auto
  have g: "tableGet t n = IsSet s" using s by (simp add: tableGet_Some)
  have sub: "set N \<subseteq> dom t" using Cons.prems(1) by simp
  show ?case
  proof (cases "''*'' \<in> set s")
    case True
    have "wildcardAnywhere (n # N) t" using True by (simp add: s wildcardAnywhere_def)
    moreover have "namespaceLoop t (n # N) (LevelName m, f) = Inr (LevelName ''trace'')"
      using True by (simp add: g)
    ultimately show ?thesis by simp
  next
    case False
    from fold_levelStep [OF False Cons.prems(2) Cons.prems(3)]
    obtain f1 where st: "fold levelStep s (LevelName m, f)
          = (LevelName (mostVerboseFrom m (map spec_severityOf s)), f1)"
      and m2: "atLeastInfo (mostVerboseFrom m (map spec_severityOf s))"
      and m3: "\<not> f1 \<longrightarrow> mostVerboseFrom m (map spec_severityOf s) = ''info''"
      by fast
    have w: "wildcardAnywhere (n # N) t = wildcardAnywhere N t"
      using False by (simp add: s wildcardAnywhere_def)
    have e: "mostVerboseFrom m (map spec_severityOf (enabledLevelsOf (n # N) t))
           = mostVerboseFrom (mostVerboseFrom m (map spec_severityOf s))
               (map spec_severityOf (enabledLevelsOf N t))"
      by (simp add: s enabledLevelsOf_def mostVerboseFrom_def)
    have "namespaceLoop t (n # N) (LevelName m, f)
        = namespaceLoop t N (LevelName (mostVerboseFrom m (map spec_severityOf s)), f1)"
      using False by (simp add: g st)
    also have "\<dots> = Inr (LevelName (if wildcardAnywhere N t then ''trace''
          else mostVerboseFrom (mostVerboseFrom m (map spec_severityOf s))
                 (map spec_severityOf (enabledLevelsOf N t))))"
      by (rule Cons.IH [OF sub m2 m3])
    finally show ?thesis unfolding w e .
  qed
qed

subsection \<open>The replacement loop against the token view\<close>

lemma placeholderCount_simps:
  "placeholderCount [] = 0"
  "placeholderCount [c] = 0"
  "c = CHR ''%'' \<and> isPlaceholder d \<Longrightarrow> placeholderCount (c # d # rest) = Suc (placeholderCount rest)"
  "\<not> (c = CHR ''%'' \<and> isPlaceholder d) \<Longrightarrow> placeholderCount (c # d # rest) = placeholderCount (d # rest)"
  by (auto simp: placeholderCount_def)

lemma tokens_ph:
  "c = CHR ''%'' \<and> isPlaceholder d \<Longrightarrow> tokens (c # d # rest) = Placeholder d # tokens rest"
  by simp

lemma tokens_lit:
  "\<not> (c = CHR ''%'' \<and> isPlaceholder d) \<Longrightarrow> tokens (c # d # rest) = Lit c # tokens (d # rest)"
  by auto

lemma replaceAll_ph_done:
  "c = CHR ''%'' \<and> isPlaceholder d \<Longrightarrow> length args \<le> i \<Longrightarrow>
   replaceAll rt args (c # d # rest) i =
     (case replaceAll rt args rest i of (m, j) \<Rightarrow> (c # d # m, j))"
  by simp

lemma replaceAll_ph_arg:
  "c = CHR ''%'' \<and> isPlaceholder d \<Longrightarrow> i < length args \<Longrightarrow>
   replaceAll rt args (c # d # rest) i =
     (case replaceAll rt args rest (Suc i) of
        (m, j) \<Rightarrow> (replacement rt d (args ! i) @ m, j))"
  by simp

lemma replaceAll_lit:
  "\<not> (c = CHR ''%'' \<and> isPlaceholder d) \<Longrightarrow>
   replaceAll rt args (c # d # rest) i =
     (case replaceAll rt args (d # rest) i of (m, j) \<Rightarrow> (c # m, j))"
  by auto

lemma replaceAll_tokens:
  "i \<le> length args \<Longrightarrow>
   replaceAll rt args msg i =
     (substitute rt (tokens msg) (drop i args), min (i + placeholderCount msg) (length args))"
proof (induction rt args msg i rule: replaceAll.induct)
  case (1 rt args argIndex)
  then show ?case by (simp add: placeholderCount_simps)
next
  case (2 rt args c argIndex)
  then show ?case by (simp add: placeholderCount_simps)
next
  case (3 rt args c d rest argIndex)
  show ?case
  proof (cases "c = CHR ''%'' \<and> isPlaceholder d")
    case ph: True
    show ?thesis
    proof (cases "argIndex \<ge> length args")
      case True
      with "3.prems" have eq: "argIndex = length args" by simp
      have ih: "replaceAll rt args rest argIndex =
          (substitute rt (tokens rest) (drop argIndex args),
           min (argIndex + placeholderCount rest) (length args))"
        by (rule "3.IH"(1) [OF ph True "3.prems"])
      show ?thesis
        unfolding replaceAll_ph_done [OF ph True] ih tokens_ph [OF ph] placeholderCount_simps(3) [OF ph]
        by (simp add: eq ph)
    next
      case False
      then have lt: "argIndex < length args" by simp
      have dr: "drop argIndex args = args ! argIndex # drop (Suc argIndex) args"
        using lt by (simp add: Cons_nth_drop_Suc)
      have le: "Suc argIndex \<le> length args" using lt by simp
      have ih: "replaceAll rt args rest (Suc argIndex) =
          (substitute rt (tokens rest) (drop (Suc argIndex) args),
           min (Suc argIndex + placeholderCount rest) (length args))"
        by (rule "3.IH"(2) [OF ph False le])
      show ?thesis
        unfolding replaceAll_ph_arg [OF ph lt] ih tokens_ph [OF ph] placeholderCount_simps(3) [OF ph] dr
        by simp
    qed
  next
    case False
    have ih: "replaceAll rt args (d # rest) argIndex =
          (substitute rt (tokens (d # rest)) (drop argIndex args),
           min (argIndex + placeholderCount (d # rest)) (length args))"
      by (rule "3.IH"(3) [OF False "3.prems"])
    show ?thesis
      unfolding replaceAll_lit [OF False] ih tokens_lit [OF False] placeholderCount_simps(4) [OF False]
      by simp
  qed
qed

lemma substitute_no_args: "substitute rt (tokens msg) [] = msg"
  by (induction msg rule: tokens.induct) auto

subsection \<open>Patterns, exclusions, queries and the log function\<close>

lemmas parse_eval = parseDebugEnvVar_def patterns_def trim_def isWhiteSpace_def startsWithDash_def
  includePattern_def nsToken_def levelToken_def enable_def addLevel_def setAdd_def initTable_def
  excludePattern_def exclusionNs_def enableAll_def entryIn_def enabledIn_def queryIn_def
  isEnabled_def raised_def tableGet_def tableSet_def inheritedByTable_def
  objectPrototypeKeys_def setPrototypeKeys_def

lemmas sev_eval = getMinLogLevel_def severityOverride_def wildcardAnywhere_def enabledLevelsOf_def
  mostVerboseFrom_def moreVerbose_def pinoLevelOf_def levelToPinoLevelGet_def levelToPinoLevel_def
  inLevelToPinoLevel_def levelIndex_def indexOf_validLevels spec_minimumSeverity_def
  spec_severityOf_def levelStep_def tableGet_def validLevels_def objectPrototypeKeys_def

lemma split_on_takeWhile:
  "split_on c s =
     takeWhile (\<lambda>x. x \<noteq> c) s #
       (if c \<in> set s then split_on c (drop 1 (dropWhile (\<lambda>x. x \<noteq> c) s)) else [])"
  by (induction s) auto

lemma nsToken_takeWhile: "nsToken p = Some (takeWhile (\<lambda>c. c \<noteq> CHR '':'') p)"
  unfolding nsToken_def by (subst split_on_takeWhile) simp

lemma levelToken_takeWhile:
  "levelToken p =
     (if CHR '':'' \<in> set p
      then Some (takeWhile (\<lambda>c. c \<noteq> CHR '':'') (drop 1 (dropWhile (\<lambda>c. c \<noteq> CHR '':'') p)))
      else None)"
proof (cases "CHR '':'' \<in> set p")
  case True
  have "split_on CHR '':'' p =
      takeWhile (\<lambda>c. c \<noteq> CHR '':'') p #
        split_on CHR '':'' (drop 1 (dropWhile (\<lambda>c. c \<noteq> CHR '':'') p))"
    using True by (subst split_on_takeWhile) simp
  also have "split_on CHR '':'' (drop 1 (dropWhile (\<lambda>c. c \<noteq> CHR '':'') p)) =
      takeWhile (\<lambda>c. c \<noteq> CHR '':'') (drop 1 (dropWhile (\<lambda>c. c \<noteq> CHR '':'') p)) #
        (if CHR '':'' \<in> set (drop 1 (dropWhile (\<lambda>c. c \<noteq> CHR '':'') p))
         then split_on CHR '':'' (drop 1 (dropWhile (\<lambda>c. c \<noteq> CHR '':'')
                 (drop 1 (dropWhile (\<lambda>c. c \<noteq> CHR '':'') p))))
         else [])"
    by (rule split_on_takeWhile)
  finally show ?thesis using True by (simp add: levelToken_def)
next
  case False
  have "split_on CHR '':'' p = [takeWhile (\<lambda>c. c \<noteq> CHR '':'') p]"
    using False by (subst split_on_takeWhile) simp
  then show ?thesis using False by (simp add: levelToken_def)
qed

lemma fold_include1_cong:
  "map (\<lambda>p. (nsToken p, levelToken p)) ps = map (\<lambda>p. (nsToken p, levelToken p)) ps'
   \<Longrightarrow> fold (include1 L k) ps s = fold (include1 L k) ps' s"
proof (induction ps arbitrary: ps' s)
  case Nil
  then show ?case by simp
next
  case (Cons p ps)
  then obtain q qs where q: "ps' = q # qs" by (cases ps') auto
  with Cons.prems have e: "nsToken p = nsToken q" "levelToken p = levelToken q"
    and r: "map (\<lambda>p. (nsToken p, levelToken p)) ps = map (\<lambda>p. (nsToken p, levelToken p)) qs"
    by simp_all
  have i: "include1 L k p s = include1 L k q s" unfolding include1_def e ..
  have "fold (include1 L k) (p # ps) s = fold (include1 L k) ps (include1 L k q s)"
    by (simp add: i)
  also have "\<dots> = fold (include1 L k) qs (include1 L k q s)"
    by (rule Cons.IH [OF r])
  finally show ?case by (simp add: q)
qed

lemma entryOf_cong:
  assumes "filter startsWithDash (patterns d) = filter startsWithDash (patterns d')"
    and "map (\<lambda>p. (nsToken p, levelToken p)) (filter (\<lambda>p. \<not> startsWithDash p) (patterns d))
       = map (\<lambda>p. (nsToken p, levelToken p)) (filter (\<lambda>p. \<not> startsWithDash p) (patterns d'))"
    and "d \<noteq> ''*''" and "d' \<noteq> ''*''"
  shows "entryOf N L d = entryOf N L d'"
proof (rule ext)
  fix k
  have fo: "fold (include1 L k) (filter (\<lambda>p. \<not> startsWithDash p) (patterns d)) []
      = fold (include1 L k) (filter (\<lambda>p. \<not> startsWithDash p) (patterns d')) []"
    by (rule fold_include1_cong [OF assms(2)])
  show "entryOf N L d k = entryOf N L d' k"
    unfolding entryOf_def assms(1) fo using assms(3,4) by simp
qed

lemma patterns_star: "patterns ''*'' = [''*'']"
  by (simp add: patterns_def trim_def isWhiteSpace_def)

lemma hasExclusionFor_not_star: "hasExclusionFor debug ns \<Longrightarrow> debug \<noteq> ''*''"
  by (auto simp: hasExclusionFor_def patterns_star startsWithDash_def)

lemma hasExclusionFor_excluded:
  "hasExclusionFor debug ns \<Longrightarrow> ns \<noteq> [] \<Longrightarrow> excluded ns (filter startsWithDash (patterns debug))"
  by (auto simp: hasExclusionFor_def excluded_def list_ex_iff)






lemma patterns_star_error: "patterns ''*:error'' = [''*:error'']"
  by (simp add: patterns_def trim_def isWhiteSpace_def)

lemma entryOf_star_error:
  "''error'' \<in> set L \<Longrightarrow> k \<in> set N \<Longrightarrow> entryOf N L ''*:error'' k = Some [''error'']"
  by (simp add: entryOf_def patterns_star_error startsWithDash_def excluded_def include1_def
      nsToken_def levelToken_def enable1_def setAdd_def)

lemma includePattern_inert:
  assumes "nsToken p = Some ''*''" "levelToken p = Some l" "l \<noteq> []" "l \<noteq> ''*''" "l \<notin> set L"
    and "set N \<subseteq> dom r"
  shows "includePattern N L r p = Inr r"
proof -
  have "include1 L k p s = s" for k s
    using assms(1-5) by (simp add: include1_def enable1_def)
  then have "(\<lambda>k. if k \<in> set N then map_option (include1 L k p) (r k) else r k) = r"
    by (intro ext) (simp add: map_option_idI)
  then show ?thesis by (simp add: includePattern_apply [OF assms(6)])
qed


lemma pinoLevelOf_result:
  "pinoLevelOf lvl =
     (if lvl \<in> set validLevels then LevelName lvl
      else if lvl \<in> set objectPrototypeKeys then ProtoMember lvl
      else LevelName ''info'')"
  by (simp add: pinoLevelOf_def levelToPinoLevelGet_def levelToPinoLevel_valid
      levelToPinoLevel_invalid)

lemma logFn_result:
  assumes "isEnabled (enabledNamespacesMap st) ns lvl = Inr b"
    and "pinoLevelOf lvl = LevelName sev"
  shows "logFn rt st ns lvl m args =
           Inr (if b \<or> isLevelEnabled st ns lvl (LevelName sev)
                then st\<lparr>emitted := emitted st @ [(ns, lvl, sev, callOf rt m args)]\<rparr>
                else st)"
  using assms by (simp add: logFn_def emit_def)

lemma logFn_member_level:
  assumes "isEnabled (enabledNamespacesMap st) ns lvl = Inr b"
    and "pinoLevelOf lvl = ProtoMember k"
  shows "logFn rt st ns lvl m args =
           (if b \<or> isLevelEnabled st ns lvl (ProtoMember k) then Inl TypeError else Inr st)"
  using assms by (simp add: logFn_def emit_def)

lemma star_fast_path:
  assumes "\<not> raised (initTable N)"
  shows "parseDebugEnvVar N L (Some ''*'') = Inr (\<lambda>k. if k \<in> set N then Some [''*''] else None)"
proof -
  have np: "\<not> protoBeforeSize N" using assms by (simp add: initTable_raises_iff)
  have "entryOf N L ''*'' = (\<lambda>k. if k \<in> set N then Some [''*''] else None)"
    by (intro ext) (simp add: entryOf_def)
  then show ?thesis using np by (simp add: parseDebugEnvVar_entryOf)
qed

lemma star_enables_all:
  assumes "\<not> raised (initTable N)" and "ns \<in> set N"
  shows "queryIn (parseDebugEnvVar N L (Some ''*'')) ns lvl = Inr True"
  using assms(2) by (simp add: star_fast_path [OF assms(1)] queryIn_def isEnabled_own)

lemma pinoLevelOf_ordinary:
  "lvl \<notin> set objectPrototypeKeys \<Longrightarrow> pinoLevelOf lvl = LevelName (spec_severityOf lvl)"
  by (simp add: pinoLevelOf_result spec_severityOf_def)

text \<open>
  For a namespace with an entry in the table and a level that is not the name of a
  member of \<open>Object.prototype\<close>, the log function makes exactly the call \<open>callOf\<close> at
  the level's severity when the entry or the gate admits it, and nothing otherwise.
\<close>

lemma logFn_forwards:
  assumes "enabledNamespacesMap st ns = Some s" and "lvl \<notin> set objectPrototypeKeys"
  shows "logFn rt st ns lvl m args =
           Inr (if (''*'' \<in> set s \<or> lvl \<in> set s)
                   \<or> isLevelEnabled st ns lvl (LevelName (spec_severityOf lvl))
                then st\<lparr>emitted := emitted st @ [(ns, lvl, spec_severityOf lvl, callOf rt m args)]\<rparr>
                else st)"
proof -
  have e: "isEnabled (enabledNamespacesMap st) ns lvl = Inr (''*'' \<in> set s \<or> lvl \<in> set s)"
    using assms(1) by (simp add: isEnabled_own)
  show ?thesis
    by (rule logFn_result [OF e pinoLevelOf_ordinary [OF assms(2)]])
qed

section \<open>The claims\<close>

text \<open>
  C1. The claim: a call of the log function of (ns, lvl) reaches the engine's emit
  operation exactly when \<open>isEnabled\<close> holds for (ns, lvl) or the engine's severity
  gate lets the level's severity through. \<open>logFn_forwards\<close> above proves it, with the
  call and the severity spelled out, for every level that is not the name of a member
  of \<open>Object.prototype\<close>. For a declared level with such a name the code does not
  meet the claim: \<open>levelToPinoLevel[level] || "info"\<close> is the inherited member instead
  of \<open>"info"\<close>, and a call that \<open>isEnabled\<close> admits raises \<open>TypeError\<close> at
  \<open>envLogger[pinoLevel](...)\<close> without reaching the engine. Here the matrix has the
  namespace \<open>app\<close>, the level \<open>constructor\<close> and the spec \<open>*\<close>.
\<close>

theorem logFn_inherited_level_raises:
  "entryIn (parseDebugEnvVar [''app''] [''constructor''] (Some ''*'')) ''app''
     = Some [''*'']
   \<and> enabledNamespacesMap constructorLevelState ''app'' = Some [''*'']
   \<and> isEnabled (enabledNamespacesMap constructorLevelState) ''app'' ''constructor'' = Inr True
   \<and> pinoLevelOf ''constructor'' = ProtoMember ''constructor''
   \<and> logFn stringRuntime constructorLevelState ''app'' ''constructor'' (Inl ''up'') []
       = Inl TypeError"
  by (simp add: parse_eval constructorLevelState_def logFn_def emit_def pinoLevelOf_def
      levelToPinoLevelGet_def levelToPinoLevel_def)

text \<open>
  C2, as the code has it. The namespace token of a pattern is the text before its first
  \<open>:\<close>; the level token is the text between the first and the second \<open>:\<close> (up to
  the end when there is no second one) and is absent when the pattern has no \<open>:\<close>.
  What follows a second \<open>:\<close> is dropped, so \<open>app:info:extra\<close> builds the same table
  as \<open>app:info\<close>. No pattern makes the builder raise: it raises exactly when its first
  loop, which does not look at the spec string, does.
\<close>

theorem pattern_tokens:
  "nsToken p = Some (takeWhile (\<lambda>c. c \<noteq> CHR '':'') p)
   \<and> levelToken p =
       (if CHR '':'' \<in> set p
        then Some (takeWhile (\<lambda>c. c \<noteq> CHR '':'') (drop 1 (dropWhile (\<lambda>c. c \<noteq> CHR '':'') p)))
        else None)
   \<and> parseDebugEnvVar N L (Some ''app:info:extra'') = parseDebugEnvVar N L (Some ''app:info'')
   \<and> raised (parseDebugEnvVar N L env) = raised (initTable N)"
proof -
  have p1: "patterns ''app:info:extra'' = [''app:info:extra'']"
    by (simp add: patterns_def trim_def isWhiteSpace_def)
  have p2: "patterns ''app:info'' = [''app:info'']"
    by (simp add: patterns_def trim_def isWhiteSpace_def)
  have "entryOf N L ''app:info:extra'' = entryOf N L ''app:info''"
    by (rule entryOf_cong) (simp_all add: p1 p2 startsWithDash_def nsToken_def levelToken_def)
  then have "parseDebugEnvVar N L (Some ''app:info:extra'') = parseDebugEnvVar N L (Some ''app:info'')"
    by (simp add: parseDebugEnvVar_entryOf)
  then show ?thesis
    using nsToken_takeWhile [of p] levelToken_takeWhile [of p] raised_parse [of N L env]
    by simp
qed

text \<open>
  With \<open>info\<close> declared, \<open>app:info:extra\<close> enables \<open>app:info\<close>.
\<close>

theorem pattern_tokens_witness:
  "levelToken ''app:info:extra'' = Some ''info''
   \<and> entryIn (parseDebugEnvVar [''app''] [''info'', ''error''] (Some ''app:info'')) ''app'' = Some [''info'']
   \<and> entryIn (parseDebugEnvVar [''app''] [''info'', ''error''] (Some ''app:info:extra'')) ''app'' = Some [''info'']
   \<and> \<not> raised (parseDebugEnvVar [''app''] [''info'', ''error''] (Some ''app:info:extra''))"
  using pattern_tokens [of "''app:info:extra''" "[''app'']" "[''info'', ''error'']" "Some ''app:info:extra''"]
  by (simp add: parse_eval)

text \<open>
  The claim as stated fails: the level token of \<open>app:info:extra\<close> is not
  \<open>info:extra\<close>, and the pattern is not ignored although \<open>info:extra\<close> is neither
  the wildcard nor a declared level.
\<close>

theorem level_token_rest_counterexample:
  "levelToken ''app:info:extra'' \<noteq> Some ''info:extra''
   \<and> ''info:extra'' \<noteq> ''*'' \<and> ''info:extra'' \<notin> set [''info'']
   \<and> enabledIn (parseDebugEnvVar [''app''] [''info''] (Some ''app:info:extra'')) ''app'' ''info''"
  by (simp add: parse_eval)

text \<open>
  C3, as the code has it. When the table can be initialised and a declared namespace
  with a non-empty name has an exclusion token in the spec string (a token that starts
  with \<open>-\<close> and whose text up to the first \<open>:\<close> is the namespace), its entry in the
  built table is the empty set and \<open>isEnabled\<close> is false for it at every level,
  wherever the token stands and whatever the inclusions are. The strings
  \<open>app:info,-app\<close> and \<open>-app,app:info\<close> build equal tables.
\<close>

theorem exclusion_wins:
  "(ns \<in> set N \<and> ns \<noteq> [] \<and> hasExclusionFor debug ns \<and> \<not> raised (initTable N) \<longrightarrow>
      entryIn (parseDebugEnvVar N L (Some debug)) ns = Some []
      \<and> (\<forall>lvl. queryIn (parseDebugEnvVar N L (Some debug)) ns lvl = Inr False))
   \<and> parseDebugEnvVar N L (Some ''app:info,-app'') = parseDebugEnvVar N L (Some ''-app,app:info'')"
proof -
  have p1: "patterns ''app:info,-app'' = [''app:info'', ''-app'']"
    by (simp add: patterns_def trim_def isWhiteSpace_def)
  have p2: "patterns ''-app,app:info'' = [''-app'', ''app:info'']"
    by (simp add: patterns_def trim_def isWhiteSpace_def)
  have "entryOf N L ''app:info,-app'' = entryOf N L ''-app,app:info''"
    by (rule entryOf_cong) (simp_all add: p1 p2 startsWithDash_def)
  then have order: "parseDebugEnvVar N L (Some ''app:info,-app'') = parseDebugEnvVar N L (Some ''-app,app:info'')"
    by (simp add: parseDebugEnvVar_entryOf)
  have "entryIn (parseDebugEnvVar N L (Some debug)) ns = Some []
      \<and> (\<forall>lvl. queryIn (parseDebugEnvVar N L (Some debug)) ns lvl = Inr False)"
    if h: "ns \<in> set N" "ns \<noteq> []" "hasExclusionFor debug ns" "\<not> raised (initTable N)"
  proof -
    have np: "\<not> protoBeforeSize N" using h(4) by (simp add: initTable_raises_iff)
    have e: "entryIn (parseDebugEnvVar N L (Some debug)) ns = Some []"
      using h(1) hasExclusionFor_not_star [OF h(3)] hasExclusionFor_excluded [OF h(3) h(2)]
      by (simp add: entryIn_parse [OF np] entryOf_def)
    show ?thesis using e queryIn_entryIn [OF e] by simp
  qed
  then show ?thesis using order by simp
qed

text \<open>
  An exclusion with a level qualifier, placed before the inclusion \<open>*\<close>.
\<close>

theorem exclusion_wins_witness:
  "''api'' \<in> set [''app'', ''api''] \<and> hasExclusionFor ''-api:info , *'' ''api''
   \<and> \<not> raised (initTable [''app'', ''api''])
   \<and> entryIn (parseDebugEnvVar [''app'', ''api''] [''info''] (Some ''-api:info , *'')) ''api'' = Some []
   \<and> entryIn (parseDebugEnvVar [''app'', ''api''] [''info''] (Some ''-api:info , *'')) ''app'' = Some [''*'']"
  using exclusion_wins [of "''api''" "[''app'', ''api'']" "''-api:info , *''" "[''info'']"]
  by (simp add: hasExclusionFor_def parse_eval)

text \<open>
  The claim as stated fails for the namespace whose name is the empty string: the
  exclusion token \<open>-\<close> is skipped by the guard on an empty namespace token, and the
  inclusion \<open>*\<close> stays.
\<close>

theorem exclusion_counterexample:
  "'''' \<in> set [''''] \<and> hasExclusionFor ''*,-'' ''''
   \<and> entryIn (parseDebugEnvVar [''''] [''info''] (Some ''*,-'')) '''' = Some [''*'']
   \<and> enabledIn (parseDebugEnvVar [''''] [''info''] (Some ''*,-'')) '''' ''info''"
  by (simp add: hasExclusionFor_def parse_eval)




text \<open>
  C5, as the code has it. When \<open>LOG_LEVEL\<close> is not taken as an override (the code's
  test \<open>configuredLevel && configuredLevel in levelToPinoLevel\<close> fails), and the table
  has an entry for every declared namespace, the computed minimum severity is
  \<open>trace\<close> when the enabled-set of some declared namespace holds the wildcard marker;
  otherwise it is the most verbose severity among the default \<open>info\<close> and the
  severities of all enabled levels (unmapped levels count as \<open>info\<close>). It is therefore
  never less verbose than \<open>info\<close>, and it is \<open>info\<close> when nothing is enabled.
\<close>

theorem getMinLogLevel_floor_info:
  assumes "severityOverride env_LOG_LEVEL = None" and "set namespaces \<subseteq> dom t"
  shows "getMinLogLevel env_LOG_LEVEL namespaces t =
           Inr (LevelName
                  (if wildcardAnywhere namespaces t then ''trace''
                   else mostVerboseFrom ''info''
                          (map spec_severityOf (enabledLevelsOf namespaces t))))"
  using assms by (simp add: getMinLogLevel_def namespaceLoop_result atLeastInfo_def)

text \<open>
  An unrecognised \<open>LOG_LEVEL\<close>; \<open>warn\<close> and \<open>error\<close> do not raise the threshold
  above the default, \<open>debug\<close> lowers it.
\<close>

theorem getMinLogLevel_floor_info_witness:
  "severityOverride (Some ''verbose'') = None
   \<and> set [''app'', ''api''] \<subseteq> dom [''app'' \<mapsto> [''warn'', ''debug''], ''api'' \<mapsto> [''error'']]
   \<and> getMinLogLevel (Some ''verbose'') [''app'', ''api'']
         [''app'' \<mapsto> [''warn'', ''debug''], ''api'' \<mapsto> [''error'']]
       = Inr (LevelName ''debug'')"
proof -
  have h1: "severityOverride (Some ''verbose'') = None"
    by (simp add: severityOverride_def inLevelToPinoLevel_def levelToPinoLevel_def
        objectPrototypeKeys_def)
  have h2: "set [''app'', ''api''] \<subseteq> dom [''app'' \<mapsto> [''warn'', ''debug''], ''api'' \<mapsto> [''error'']]"
    by simp
  show ?thesis
    using h1 h2 getMinLogLevel_floor_info [OF h1 h2]
    by (simp add: wildcardAnywhere_def enabledLevelsOf_def mostVerboseFrom_def moreVerbose_def
        spec_severityOf_def validLevels_def)
qed

text \<open>
  The claim as stated fails when only levels less verbose than \<open>info\<close> are enabled:
  for the table of the spec \<open>app:error\<close> the code answers \<open>info\<close>, the claim's
  wording answers \<open>error\<close>.
\<close>

theorem minimum_severity_counterexample:
  "entryIn (parseDebugEnvVar [''app''] [''error''] (Some ''app:error'')) ''app'' = Some [''error'']
   \<and> getMinLogLevel None [''app''] [''app'' \<mapsto> [''error'']] = Inr (LevelName ''info'')
   \<and> spec_minimumSeverity [''app''] [''app'' \<mapsto> [''error'']] = ''error''"
  by (simp add: parse_eval sev_eval)


text \<open>
  C7. The claim: for every list of declared namespaces the spec \<open>*\<close> gives each of
  them the wildcard singleton, and \<open>isEnabled\<close> holds for every declared namespace
  and level. \<open>star_fast_path\<close> above proves it for every list on which the first
  loop of the builder does not raise. The code does not meet the claim when
  \<open>__proto__\<close> is declared before \<open>size\<close>: the first loop turns the prototype of the
  table into a Set and then raises \<open>TypeError\<close> on \<open>result["size"] = new Set()\<close>, so no
  table is built.
\<close>

theorem star_proto_before_size_raises:
  "''size'' \<in> set [''__proto__'', ''size'']
   \<and> parseDebugEnvVar [''__proto__'', ''size''] [''info''] (Some ''*'') = Inl TypeError
   \<and> entryIn (parseDebugEnvVar [''__proto__'', ''size''] [''info''] (Some ''*'')) ''size'' = None
   \<and> \<not> enabledIn (parseDebugEnvVar [''__proto__'', ''size''] [''info''] (Some ''*'')) ''size'' ''info''"
  by (simp add: parse_eval)

text \<open>
  C8, as the code has it. When \<open>error\<close> is a declared level and the table can be
  initialised, the spec \<open>*:error\<close> gives every declared namespace the enabled-set
  \<open>{error}\<close>: \<open>isEnabled\<close> is true for \<open>error\<close> and false for every other level. A
  pattern whose namespace token is \<open>*\<close> and whose level token is non-empty, is not
  the wildcard \<open>*\<close> and is not a declared level leaves the table as it was.
\<close>

theorem star_level_pattern:
  "(''error'' \<in> set L \<and> \<not> raised (initTable N) \<longrightarrow>
      (\<forall>ns\<in>set N. entryIn (parseDebugEnvVar N L (Some ''*:error'')) ns = Some [''error'']
                  \<and> enabledIn (parseDebugEnvVar N L (Some ''*:error'')) ns ''error'')
      \<and> (\<forall>ns\<in>set N. \<forall>lvl. lvl \<noteq> ''error'' \<longrightarrow>
            queryIn (parseDebugEnvVar N L (Some ''*:error'')) ns lvl = Inr False))
   \<and> (nsToken p = Some ''*'' \<and> levelToken p = Some l \<and> l \<noteq> [] \<and> l \<noteq> ''*'' \<and> l \<notin> set L
        \<and> set N \<subseteq> dom r \<longrightarrow> includePattern N L r p = Inr r)"
proof (intro conjI impI)
  assume a: "''error'' \<in> set L \<and> \<not> raised (initTable N)"
  then have e: "''error'' \<in> set L" and np: "\<not> protoBeforeSize N"
    by (simp_all add: initTable_raises_iff)
  have en: "entryIn (parseDebugEnvVar N L (Some ''*:error'')) ns = Some [''error'']"
    if "ns \<in> set N" for ns
    using that by (simp add: entryIn_parse [OF np] entryOf_star_error [OF e])
  show "\<forall>ns\<in>set N. entryIn (parseDebugEnvVar N L (Some ''*:error'')) ns = Some [''error'']
                  \<and> enabledIn (parseDebugEnvVar N L (Some ''*:error'')) ns ''error''"
    using en by (simp add: enabledIn_def queryIn_entryIn)
  show "\<forall>ns\<in>set N. \<forall>lvl. lvl \<noteq> ''error'' \<longrightarrow>
            queryIn (parseDebugEnvVar N L (Some ''*:error'')) ns lvl = Inr False"
    using en by (simp add: queryIn_entryIn)
next
  assume h: "nsToken p = Some ''*'' \<and> levelToken p = Some l \<and> l \<noteq> [] \<and> l \<noteq> ''*'' \<and> l \<notin> set L
        \<and> set N \<subseteq> dom r"
  have h1: "nsToken p = Some ''*''" and h2: "levelToken p = Some l" and h3: "l \<noteq> []"
    and h4: "l \<noteq> ''*''" and h5: "l \<notin> set L" and h6: "set N \<subseteq> dom r"
    using h by simp_all
  show "includePattern N L r p = Inr r"
    by (rule includePattern_inert [OF h1 h2 h3 h4 h5 h6])
qed

text \<open>
  The spec \<open>*:error\<close>, and the pattern \<open>*:verbose\<close> with \<open>verbose\<close> undeclared.
\<close>

theorem star_level_pattern_witness:
  "''error'' \<in> set [''info'', ''error''] \<and> \<not> raised (initTable [''app'', ''api''])
   \<and> ''api'' \<in> set [''app'', ''api'']
   \<and> enabledIn (parseDebugEnvVar [''app'', ''api''] [''info'', ''error''] (Some ''*:error'')) ''api'' ''error''
   \<and> queryIn (parseDebugEnvVar [''app'', ''api''] [''info'', ''error''] (Some ''*:error'')) ''api'' ''info''
       = Inr False
   \<and> nsToken ''*:verbose'' = Some ''*'' \<and> levelToken ''*:verbose'' = Some ''verbose''
   \<and> ''verbose'' \<notin> set [''info'', ''error'']
   \<and> set [''app'', ''api''] \<subseteq> dom [''app'' \<mapsto> [], ''api'' \<mapsto> ([] :: level_set)]
   \<and> includePattern [''app'', ''api''] [''info'', ''error''] [''app'' \<mapsto> [], ''api'' \<mapsto> []] ''*:verbose''
       = Inr [''app'' \<mapsto> [], ''api'' \<mapsto> []]"
  using star_level_pattern [of "[''info'', ''error'']" "[''app'', ''api'']" "''*:verbose''" "''verbose''"
          "[''app'' \<mapsto> [], ''api'' \<mapsto> []]"]
  by (simp add: nsToken_def levelToken_def initTable_def tableSet_def raised_def)

text \<open>
  The claim as stated fails for the level tokens \<open>*\<close> and the empty string: neither
  is a declared level, and both \<open>*:*\<close> and \<open>*:\<close> enable every level of every
  declared namespace.
\<close>

theorem star_level_wildcard_counterexample:
  "levelToken ''*:*'' = Some ''*'' \<and> ''*'' \<notin> set [''error'']
   \<and> enabledIn (parseDebugEnvVar [''app''] [''error''] (Some ''*:*'')) ''app'' ''error''
   \<and> levelToken ''*:'' = Some '''' \<and> '''' \<notin> set [''error'']
   \<and> enabledIn (parseDebugEnvVar [''app''] [''error''] (Some ''*:'')) ''app'' ''error''"
  by (simp add: parse_eval)

text \<open>
  C9. The \<open>enabled\<close> property of a log function can be read, and assigning to it does
  nothing: the state after the assignment is the state before it, so every later read
  of \<open>enabled\<close> and every later call of a log function behave as without it.
\<close>

theorem enabled_set_no_op:
  "enabled_set st ns lvl v = st
   \<and> enabled_get (enabled_set st ns lvl v) ns' lvl' = enabled_get st ns' lvl'
   \<and> logFn rt (enabled_set st ns lvl v) ns' lvl' m args = logFn rt st ns' lvl' m args"
  by (simp add: enabled_set_def)

theorem enabled_set_no_op_witness:
  "enabled_get (enabled_set exampleState ''app'' ''info'' False) ''app'' ''info'' = Inr True
   \<and> enabled_get (enabled_set exampleState ''api'' ''info'' True) ''api'' ''info'' = Inr False"
  using enabled_set_no_op [of exampleState "''app''" "''info''" False "''app''" "''info''"]
        enabled_set_no_op [of exampleState "''api''" "''info''" True "''api''" "''info''"]
  by (simp add: enabled_get_def exampleState_def isEnabled_def tableGet_def pinoLevelOf_def
      levelToPinoLevelGet_def levelToPinoLevel_def)

text \<open>
  C10. \<open>formatMessage\<close> replaces the occurrences of \<open>%s %d %i %f %j %o %O\<close> from left
  to right, one argument per occurrence in order; an occurrence for which no argument
  is left stays in the message as it is, and \<open>unusedArgs\<close> is the argument list without
  the consumed prefix. With no arguments the message is returned unchanged.
\<close>

theorem formatMessage_left_to_right:
  "message (formatMessage rt msg args) = substitute rt (tokens msg) args
   \<and> unusedArgs (formatMessage rt msg args) = drop (min (placeholderCount msg) (length args)) args
   \<and> message (formatMessage rt msg []) = msg"
  by (simp add: formatMessage_def replaceAll_tokens substitute_no_args)

theorem formatMessage_left_to_right_witness:
  "message (formatMessage stringRuntime ''%s is %d, %j'' [''x'', ''1'']) = ''x is 1, %j''
   \<and> unusedArgs (formatMessage stringRuntime ''%s and %%'' [''a'', ''b'', ''c'']) = [''b'', ''c'']"
  using formatMessage_left_to_right [of stringRuntime "''%s is %d, %j''" "[''x'', ''1'']"]
        formatMessage_left_to_right [of stringRuntime "''%s and %%''" "[''a'', ''b'', ''c'']"]
  by (simp add: placeholderCount_def isPlaceholder_def replacement_def stringRuntime_def)

end
